theory Spec2Isabelle
  imports Main "HOL-Library.AList" "HOL-Library.Multiset"
begin

section \<open>Data model\<close>

text \<open>
  Python integers are unbounded, so every number of the program is an \<open>int\<close>; Python's
  \<open>//\<close> and \<open>%\<close> round towards minus infinity, as \<open>div\<close> and \<open>mod\<close> on \<open>int\<close> do.
  Every exception the modelled code can raise is a value of \<open>error\<close>.
\<close>

datatype error = ZeroDivisionError | TypeError | IndexError | KeyError | OSError

text \<open>
  A histogram is a Python \<open>dict\<close> from a violation count to its frequency. It is kept as
  an association list, in insertion order, read with \<open>map_of\<close> and written with
  \<open>AList.update\<close> (which overwrites an existing key in place and appends a new one).
\<close>

type_synonym histogram = "(int \<times> int) list"

text \<open>\<open>increment(dic, key, inc, default=0)\<close>: \<open>val = dic.get(key, default); dic[key] = val + inc\<close>.\<close>

definition increment :: "histogram \<Rightarrow> int \<Rightarrow> int \<Rightarrow> int \<Rightarrow> histogram" where
  "increment dic key inc dflt =
     (let val = (case map_of dic key of None \<Rightarrow> dflt | Some v \<Rightarrow> v)
      in AList.update key (val + inc) dic)"

text \<open>\<open>flatten(lst)\<close>: \<open>[item for sublist in lst for item in sublist]\<close>.\<close>

definition flatten :: "'a list list \<Rightarrow> 'a list" where
  "flatten lst = concat lst"

text \<open>
  The fields of an \<open>Experiment\<close> object. \<open>timeCreated\<close> only names the output file and is
  left out.
\<close>

record Experiment =
  NREPETITIONS :: int
  NTEAMS :: int
  NROUNDS :: int
  NGAMES :: int
  NGAMESPERROUND :: int
  MAXSTREAK :: int
  maxStreakViolations :: histogram
  doubleRoundRobinViolations :: histogram
  noRepeatViolations :: histogram

text \<open>
  \<open>Experiment.__init__\<close>. The only statement that can raise is
  \<open>self.NGAMES // self.NROUNDS\<close>, when \<open>NROUNDS = 2 * (nTeams - 1)\<close> is zero. No argument is
  validated.
\<close>

definition Experiment_init :: "int \<Rightarrow> int \<Rightarrow> int \<Rightarrow> error + Experiment" where
  "Experiment_init repetitions nTeams maxStreak =
     (let nrounds = 2 * (nTeams - 1);
          ngames = nTeams * (nTeams - 1)
      in if nrounds = 0 then Inl ZeroDivisionError
         else Inr \<lparr> NREPETITIONS = repetitions, NTEAMS = nTeams, NROUNDS = nrounds,
                    NGAMES = ngames, NGAMESPERROUND = ngames div nrounds,
                    MAXSTREAK = maxStreak, maxStreakViolations = [],
                    doubleRoundRobinViolations = [], noRepeatViolations = [] \<rparr>)"

section \<open>The game codec\<close>

definition gameIdToTeamIds :: "Experiment \<Rightarrow> int \<Rightarrow> error + (int \<times> int)" where
  "gameIdToTeamIds self gid =
     (if NTEAMS self - 1 = 0 then Inl ZeroDivisionError
      else let host = gid div (NTEAMS self - 1);
               guest = gid mod (NTEAMS self - 1)
           in Inr (host, if guest \<ge> host then guest + 1 else guest))"

definition teamIdsToGameId :: "Experiment \<Rightarrow> int \<Rightarrow> int \<Rightarrow> int" where
  "teamIdsToGameId self host guest =
     (let gid = host * (NTEAMS self - 1) + guest
      in if guest > host then gid - 1 else gid)"

section \<open>Round and tournament generation\<close>

text \<open>
  \<open>random.shuffle\<close> works on the interpreter's global generator. The generator's state is
  a value of type \<open>'g\<close>, and the shuffle is a parameter of the model: it takes the state and
  the list and returns the shuffled list and the next state.
\<close>

type_synonym 'g shuffler = "'g \<Rightarrow> int list \<Rightarrow> int list \<times> 'g"

definition shuffled :: "'g shuffler \<Rightarrow> int list \<Rightarrow> 'g \<Rightarrow> int list \<times> 'g" where
  "shuffled shuffle lst g = shuffle g lst"

text \<open>What \<open>random.shuffle\<close> guarantees: the result is a rearrangement of the argument.\<close>

definition permuting :: "'g shuffler \<Rightarrow> bool" where
  "permuting shuffle \<longleftrightarrow> (\<forall>g xs. mset (fst (shuffle g xs)) = mset xs)"

text \<open>\<open>itertools.batched(xs, 2)\<close>: consecutive chunks of two, the last one shorter if need be.\<close>

fun batched2 :: "'a list \<Rightarrow> 'a list list" where
  "batched2 (a # b # rest) = [a, b] # batched2 rest"
| "batched2 [a] = [[a]]"
| "batched2 [] = []"

text \<open>
  \<open>self.teamIdsToGameId(*t)\<close>: the call needs exactly two positional arguments, any other
  chunk raises \<open>TypeError\<close>.
\<close>

definition teamIdsToGameId_star :: "Experiment \<Rightarrow> int list \<Rightarrow> error + int" where
  "teamIdsToGameId_star self t =
     (case t of [host, guest] \<Rightarrow> Inr (teamIdsToGameId self host guest) | _ \<Rightarrow> Inl TypeError)"

text \<open>Mapping a function that may raise over a list, left to right; the first error wins.\<close>

fun map_result :: "('a \<Rightarrow> error + 'b) \<Rightarrow> 'a list \<Rightarrow> error + 'b list" where
  "map_result f [] = Inr []"
| "map_result f (x # xs) =
     (case f x of Inl e \<Rightarrow> Inl e
      | Inr y \<Rightarrow> (case map_result f xs of Inl e \<Rightarrow> Inl e | Inr ys \<Rightarrow> Inr (y # ys)))"

definition randomRound :: "'g shuffler \<Rightarrow> Experiment \<Rightarrow> 'g \<Rightarrow> error + (int list \<times> 'g)" where
  "randomRound shuffle self g =
     (let teamIds = [0..NTEAMS self - 1];
          (shuffledTeamIds, g') = shuffled shuffle teamIds g
      in case map_result (teamIdsToGameId_star self) (batched2 shuffledTeamIds) of
           Inl e \<Rightarrow> Inl e
         | Inr gids \<Rightarrow> Inr (sort gids, g'))"

type_synonym game = "int \<times> int"
type_synonym tournament = "game list list"

fun randomTournament_loop ::
  "'g shuffler \<Rightarrow> Experiment \<Rightarrow> nat \<Rightarrow> 'g \<Rightarrow> error + (tournament \<times> 'g)" where
  "randomTournament_loop shuffle self 0 g = Inr ([], g)"
| "randomTournament_loop shuffle self (Suc n) g =
     (case randomRound shuffle self g of
        Inl e \<Rightarrow> Inl e
      | Inr (gids, g1) \<Rightarrow>
          (case map_result (gameIdToTeamIds self) gids of
             Inl e \<Rightarrow> Inl e
           | Inr round \<Rightarrow>
               (case randomTournament_loop shuffle self n g1 of
                  Inl e \<Rightarrow> Inl e
                | Inr (rounds, g2) \<Rightarrow> Inr (round # rounds, g2))))"

text \<open>\<open>range(self.NROUNDS)\<close> is empty when \<open>NROUNDS\<close> is not positive.\<close>

definition randomTournament ::
  "'g shuffler \<Rightarrow> Experiment \<Rightarrow> 'g \<Rightarrow> error + (tournament \<times> 'g)" where
  "randomTournament shuffle self g = randomTournament_loop shuffle self (nat (NROUNDS self)) g"

section \<open>The violation counters\<close>

text \<open>\<open>Counter(items)[key]\<close>: the number of occurrences, zero for an absent key.\<close>

definition Counter :: "'a list \<Rightarrow> 'a \<Rightarrow> int" where
  "Counter items key = int (count_list items key)"

definition countDoubleRoundRobinViolations :: "Experiment \<Rightarrow> tournament \<Rightarrow> int" where
  "countDoubleRoundRobinViolations self tournament =
     (let counter = Counter (flatten tournament)
      in fold (\<lambda>host violations.
                 fold (\<lambda>guest violations.
                         violations + \<bar>1 - counter (host, guest)\<bar> + \<bar>1 - counter (guest, host)\<bar>)
                      [host + 1..NTEAMS self - 1] violations)
              [0..NTEAMS self - 1] 0)"

text \<open>\<open>lst[i]\<close> on a Python list: a negative index counts from the end, out of range raises.\<close>

definition getitem :: "'a list \<Rightarrow> int \<Rightarrow> error + 'a" where
  "getitem lst i =
     (let j = (if i < 0 then int (length lst) + i else i)
      in if 0 \<le> j \<and> j < int (length lst) then Inr (lst ! nat j) else Inl IndexError)"

definition noRepeat_game :: "game list \<Rightarrow> game \<Rightarrow> int \<Rightarrow> int" where
  "noRepeat_game nextRound = (\<lambda>(host, guest) violations.
     (let v1 = (if (host, guest) \<in> set nextRound then violations + 1 else violations)
      in if (guest, host) \<in> set nextRound then v1 + 1 else v1))"

fun countNoRepeat_loop :: "tournament \<Rightarrow> int list \<Rightarrow> int \<Rightarrow> error + int" where
  "countNoRepeat_loop tournament [] violations = Inr violations"
| "countNoRepeat_loop tournament (nextRoundNr # rest) violations =
     (let currentRoundNr = nextRoundNr - 1
      in case getitem tournament nextRoundNr of
           Inl e \<Rightarrow> Inl e
         | Inr nextRound \<Rightarrow>
             (case getitem tournament currentRoundNr of
                Inl e \<Rightarrow> Inl e
              | Inr currentRound \<Rightarrow>
                  countNoRepeat_loop tournament rest
                    (fold (noRepeat_game nextRound) currentRound violations)))"

definition countNoRepeatViolations :: "Experiment \<Rightarrow> tournament \<Rightarrow> error + int" where
  "countNoRepeatViolations self tournament =
     countNoRepeat_loop tournament [1..NROUNDS self - 1] 0"

text \<open>
  The streak table is a \<open>dict\<close> from team to \<open>(home, away)\<close>; \<open>streak[team]\<close> raises
  \<open>KeyError\<close> for a team outside \<open>range(NTEAMS)\<close>.
\<close>

type_synonym streaks = "(int \<times> (int \<times> int)) list"

definition streak_game :: "Experiment \<Rightarrow> game \<Rightarrow> streaks \<times> int \<Rightarrow> error + (streaks \<times> int)" where
  "streak_game self = (\<lambda>(host, guest) (streak, violations).
     (case map_of streak host of
        None \<Rightarrow> Inl KeyError
      | Some (home, away) \<Rightarrow>
          (let v1 = (if home + 1 > MAXSTREAK self then violations + 1 else violations);
               streak1 = AList.update host (home + 1, 0) streak
           in case map_of streak1 guest of
                None \<Rightarrow> Inl KeyError
              | Some (home', away') \<Rightarrow>
                  (let v2 = (if away' + 1 > MAXSTREAK self then v1 + 1 else v1)
                   in Inr (AList.update guest (0, away' + 1) streak1, v2)))))"

fun streak_round :: "Experiment \<Rightarrow> game list \<Rightarrow> streaks \<times> int \<Rightarrow> error + (streaks \<times> int)" where
  "streak_round self [] st = Inr st"
| "streak_round self (gm # rest) st =
     (case streak_game self gm st of Inl e \<Rightarrow> Inl e | Inr st' \<Rightarrow> streak_round self rest st')"

fun streak_rounds :: "Experiment \<Rightarrow> tournament \<Rightarrow> streaks \<times> int \<Rightarrow> error + (streaks \<times> int)" where
  "streak_rounds self [] st = Inr st"
| "streak_rounds self (round # rest) st =
     (case streak_round self round st of Inl e \<Rightarrow> Inl e | Inr st' \<Rightarrow> streak_rounds self rest st')"

definition countMaxStreakViolations :: "Experiment \<Rightarrow> tournament \<Rightarrow> error + int" where
  "countMaxStreakViolations self tournament =
     (let streak = map (\<lambda>team. (team, (0, 0))) [0..NTEAMS self - 1]
      in case streak_rounds self tournament (streak, 0) of
           Inl e \<Rightarrow> Inl e
         | Inr (streak', violations) \<Rightarrow> Inr violations)"

section \<open>The experiment loop\<close>

text \<open>
  An exception leaves \<open>execute\<close> with the object in the state it had when the exception was
  raised. To keep that state, a failure of the loop is the pair of the error and the object
  at that moment: the histograms that were already updated stay updated. (The state of the
  generator after a failure is not kept.)

  One pass of the body of \<open>execute\<close>'s loop per repetition; \<open>range(NREPETITIONS)\<close> is empty
  for a count that is not positive. The progress bar only displays the iteration.
\<close>

fun execute_loop ::
  "'g shuffler \<Rightarrow> nat \<Rightarrow> Experiment \<Rightarrow> 'g \<Rightarrow> (error \<times> Experiment) + (Experiment \<times> 'g)" where
  "execute_loop shuffle 0 self g = Inr (self, g)"
| "execute_loop shuffle (Suc n) self g =
     (case randomTournament shuffle self g of
        Inl e \<Rightarrow> Inl (e, self)
      | Inr (tournament, g1) \<Rightarrow>
          (case countMaxStreakViolations self tournament of
             Inl e \<Rightarrow> Inl (e, self)
           | Inr msv \<Rightarrow>
               (let self1 = self\<lparr>maxStreakViolations :=
                                   increment (maxStreakViolations self) msv 1 0\<rparr>;
                    drr = countDoubleRoundRobinViolations self1 tournament;
                    self2 = self1\<lparr>doubleRoundRobinViolations :=
                                    increment (doubleRoundRobinViolations self1) drr 1 0\<rparr>
                in case countNoRepeatViolations self2 tournament of
                     Inl e \<Rightarrow> Inl (e, self2)
                   | Inr nrv \<Rightarrow>
                       execute_loop shuffle n
                         (self2\<lparr>noRepeatViolations :=
                                  increment (noRepeatViolations self2) nrv 1 0\<rparr>) g1)))"

text \<open>
  \<open>saveResults\<close> opens the output file of the experiment and dumps the dictionary of the three
  histograms into it. Whether that succeeds depends on the file system (the directory
  \<open>output\<close> may be missing, for one), which is outside the program: the write is a parameter,
  which takes the dictionary and returns \<open>None\<close> when it succeeds and the error when
  \<open>open\<close> or \<open>json.dump\<close> raises. The name of the file is not modelled.
\<close>

type_synonym results = "(string \<times> histogram) list"
type_synonym writer = "results \<Rightarrow> error option"

definition saveResults :: "writer \<Rightarrow> Experiment \<Rightarrow> error option" where
  "saveResults write self =
     write [(''maxStreakViolations'', maxStreakViolations self),
            (''noRepeatViolations'', noRepeatViolations self),
            (''doubleRoundRobinViolations'', doubleRoundRobinViolations self)]"

text \<open>\<open>execute\<close>: the loop, then \<open>self.saveResults()\<close>.\<close>

definition execute ::
  "'g shuffler \<Rightarrow> writer \<Rightarrow> Experiment \<Rightarrow> 'g \<Rightarrow> (error \<times> Experiment) + (Experiment \<times> 'g)" where
  "execute shuffle write self g =
     (case execute_loop shuffle (nat (NREPETITIONS self)) self g of
        Inl failure \<Rightarrow> Inl failure
      | Inr (self', g') \<Rightarrow>
          (case saveResults write self' of
             Some e \<Rightarrow> Inl (e, self')
           | None \<Rightarrow> Inr (self', g')))"

text \<open>The sum of the frequencies of a histogram.\<close>

definition total :: "histogram \<Rightarrow> int" where
  "total dic = sum_list (map snd dic)"

section \<open>Reduction of the experiments' results\<close>

text \<open>\<open>"{}".format(i)\<close> for an integer: its decimal digits, with a minus sign when negative.\<close>

definition digit_char :: "nat \<Rightarrow> char" where
  "digit_char d = ''0123456789'' ! d"

fun str_nat :: "nat \<Rightarrow> string" where
  "str_nat n = (if n < 10 then [digit_char n] else str_nat (n div 10) @ [digit_char (n mod 10)])"

declare str_nat.simps [simp del]

definition str_int :: "int \<Rightarrow> string" where
  "str_int i = (if i < 0 then CHR ''-'' # str_nat (nat (- i)) else str_nat (nat i))"

text \<open>
  The loop at the end of \<open>main\<close>. The aggregate is a dictionary of dictionaries; it is
  compared by content, whatever the order of its keys, so both levels are maps. The innermost value is the dictionary
  of the three histograms of one experiment, under its three fixed keys.
\<close>

type_synonym aggregate = "string \<rightharpoonup> (string \<rightharpoonup> results)"

definition all_results_step :: "aggregate \<Rightarrow> Experiment \<Rightarrow> aggregate" where
  "all_results_step all_results exp =
     (let streak_results =
            (case all_results (''maxStreak='' @ str_int (MAXSTREAK exp)) of
               None \<Rightarrow> Map.empty | Some d \<Rightarrow> d);
          streak_results' = streak_results(''teams='' @ str_int (NTEAMS exp) \<mapsto>
            [(''maxStreakViolations'', maxStreakViolations exp),
             (''noRepeatViolations'', noRepeatViolations exp),
             (''doubleRoundRobinViolations'', doubleRoundRobinViolations exp)])
      in all_results(''maxStreak='' @ str_int (MAXSTREAK exp) \<mapsto> streak_results'))"

definition all_results :: "Experiment list \<Rightarrow> aggregate" where
  "all_results experiments = foldl all_results_step Map.empty experiments"

text \<open>
  \<open>executeExperiment\<close> seeds the generator with 1, runs the experiment and returns it; the
  seeding function is a parameter, like the shuffle and the write. \<open>main\<close> builds one experiment of 1000
  repetitions for every \<open>nTeams\<close> in \<open>range(4, 52, 2)\<close> and every \<open>maxStreak\<close> in
  \<open>range(1, 6)\<close>, in this order.
\<close>

definition executeExperiment ::
  "(int \<Rightarrow> 'g) \<Rightarrow> 'g shuffler \<Rightarrow> writer \<Rightarrow> Experiment \<Rightarrow> (error \<times> Experiment) + Experiment" where
  "executeExperiment seed shuffle write exp =
     (case execute shuffle write exp (seed 1) of
        Inl failure \<Rightarrow> Inl failure
      | Inr (exp', g') \<Rightarrow> Inr exp')"

definition main_experiments :: "(error + Experiment) list" where
  "main_experiments =
     concat (map (\<lambda>nTeams. map (\<lambda>maxStreak. Experiment_init 1000 nTeams maxStreak) [1..5])
                 (map (\<lambda>k. 4 + 2 * k) [0..23]))"

section \<open>Fixtures and auxiliary notions\<close>

text \<open>The object built by \<open>Experiment(nTeams=4, maxStreak=3)\<close>, with the default 1000 repetitions.\<close>

definition experiment4 :: Experiment where
  "experiment4 = \<lparr> NREPETITIONS = 1000, NTEAMS = 4, NROUNDS = 6, NGAMES = 12,
                    NGAMESPERROUND = 2, MAXSTREAK = 3, maxStreakViolations = [],
                    doubleRoundRobinViolations = [], noRepeatViolations = [] \<rparr>"

text \<open>
  Three more objects: \<open>Experiment(repetitions=2, nTeams=4, maxStreak=3)\<close>,
  \<open>Experiment(repetitions=1, nTeams=2, maxStreak=-1)\<close> and
  \<open>Experiment(repetitions=1, nTeams=3, maxStreak=3)\<close>.
\<close>

definition experiment4_twice :: Experiment where
  "experiment4_twice = experiment4\<lparr>NREPETITIONS := 2\<rparr>"

definition experiment2_negative :: Experiment where
  "experiment2_negative = \<lparr> NREPETITIONS = 1, NTEAMS = 2, NROUNDS = 2, NGAMES = 2,
                             NGAMESPERROUND = 1, MAXSTREAK = - 1, maxStreakViolations = [],
                             doubleRoundRobinViolations = [], noRepeatViolations = [] \<rparr>"


text \<open>
  Two completed experiments for the same number of teams and the same threshold: the one
  of two repetitions after its run under \<open>rotate_shuffle\<close> (defined below), and one of no
  repetitions, whose run changes nothing.
\<close>

definition completed_twice :: Experiment where
  "completed_twice = experiment4_twice\<lparr>maxStreakViolations := [(0, 2)],
                                        doubleRoundRobinViolations := [(16, 2)],
                                        noRepeatViolations := [(0, 2)]\<rparr>"

definition completed_none :: Experiment where
  "completed_none = experiment4\<lparr>NREPETITIONS := 0\<rparr>"

text \<open>The experiment of two teams and threshold \<open>-1\<close> after its run under \<open>rotate_shuffle\<close>.\<close>

definition completed_negative :: Experiment where
  "completed_negative = experiment2_negative\<lparr>maxStreakViolations := [(4, 1)],
                                              doubleRoundRobinViolations := [(0, 1)],
                                              noRepeatViolations := [(1, 1)]\<rparr>"

text \<open>The hand-built tournament of four teams, and the same with round 0 copied to index 1.\<close>

definition fixture :: tournament where
  "fixture = [[(0, 1), (2, 3)], [(1, 0), (3, 2)], [(0, 2), (1, 3)],
              [(2, 0), (3, 1)], [(0, 3), (2, 1)], [(3, 0), (1, 2)]]"

definition fixture_dup0 :: tournament where
  "fixture_dup0 = take 1 fixture @ [fixture ! 0] @ drop 1 fixture"

text \<open>
  A deterministic stand-in for \<open>random.shuffle\<close>, to run the model on concrete inputs: the
  state counts the draws, and the \<open>g\<close>-th draw rotates the list by \<open>g\<close> places.
\<close>

definition rotate_shuffle :: "nat shuffler" where
  "rotate_shuffle g xs = (rotate g xs, Suc g)"

text \<open>Two file systems: one where every write succeeds, one where every write fails.\<close>

definition write_ok :: writer where
  "write_ok dic = None"

definition write_fails :: writer where
  "write_fails dic = Some OSError"

text \<open>The ordered pairs of distinct teams of an experiment.\<close>

definition ordered_pairs :: "Experiment \<Rightarrow> (int \<times> int) set" where
  "ordered_pairs self =
     {(host, guest). 0 \<le> host \<and> host < NTEAMS self \<and> 0 \<le> guest \<and> guest < NTEAMS self \<and>
                     host \<noteq> guest}"

text \<open>The teams of a round, two per game, and the games of a round that a team plays in.\<close>

definition teams_of :: "game list \<Rightarrow> int list" where
  "teams_of round = concat (map (\<lambda>(host, guest). [host, guest]) round)"

definition games_with :: "int \<Rightarrow> game list \<Rightarrow> game list" where
  "games_with team round = filter (\<lambda>(host, guest). host = team \<or> guest = team) round"

text \<open>
  A round is a perfect matching when its hosts and guests, put in order, are exactly the
  teams \<open>0, \<dots>, N - 1\<close>: every team plays once, and nobody plays against itself.
\<close>

definition perfect_matching :: "Experiment \<Rightarrow> game list \<Rightarrow> bool" where
  "perfect_matching self round \<longleftrightarrow> sort (teams_of round) = [0..NTEAMS self - 1]"

text \<open>The slot of the aggregate that an experiment is written to.\<close>

definition slot :: "Experiment \<Rightarrow> int \<times> int" where
  "slot exp = (MAXSTREAK exp, NTEAMS exp)"

text \<open>Reading a decimal numeral back, to show that formatting loses nothing.\<close>

definition digit_val :: "char \<Rightarrow> nat" where
  "digit_val c = length (takeWhile (\<lambda>d. d \<noteq> c) ''0123456789'')"

definition parse_nat :: "string \<Rightarrow> nat" where
  "parse_nat cs = foldl (\<lambda>acc c. 10 * acc + digit_val c) 0 cs"

text \<open>Proof devices: the consecutive pairs of a list, and the decoder without its error case.\<close>

fun pairup :: "'a list \<Rightarrow> ('a \<times> 'a) list" where
  "pairup (a # b # rest) = (a, b) # pairup rest"
| "pairup [a] = []"
| "pairup [] = []"

definition decode_pair :: "Experiment \<Rightarrow> int \<Rightarrow> int \<times> int" where
  "decode_pair self gid =
     (let host = gid div (NTEAMS self - 1); guest = gid mod (NTEAMS self - 1)
      in (host, if guest \<ge> host then guest + 1 else guest))"

section \<open>The codec is a bijection\<close>

lemma divmod_digit:
  fixes q r m :: int
  assumes "0 \<le> r" "r < m"
  shows "(q * m + r) div m = q" "(q * m + r) mod m = r"
  using assms by (simp_all add: div_pos_pos_trivial)

lemma encode_cases:
  "teamIdsToGameId self host guest =
     host * (NTEAMS self - 1) + (if guest > host then guest - 1 else guest)"
  by (simp add: teamIdsToGameId_def Let_def)

lemma decode_encode:
  assumes "0 \<le> host" "host < NTEAMS self" "0 \<le> guest" "guest < NTEAMS self" "host \<noteq> guest"
  shows "gameIdToTeamIds self (teamIdsToGameId self host guest) = Inr (host, guest)"
proof -
  let ?m = "NTEAMS self - 1"
  let ?r = "if guest > host then guest - 1 else guest"
  have r: "0 \<le> ?r" "?r < ?m" using assms by auto
  have m: "?m \<noteq> 0" using r by linarith
  have d: "(host * ?m + ?r) div ?m = host" and mo: "(host * ?m + ?r) mod ?m = ?r"
    using divmod_digit[OF r] by blast+
  show ?thesis
    unfolding encode_cases gameIdToTeamIds_def Let_def d mo using m assms by auto
qed

lemma encode_range:
  assumes "0 \<le> host" "host < NTEAMS self" "0 \<le> guest" "guest < NTEAMS self" "host \<noteq> guest"
  shows "0 \<le> teamIdsToGameId self host guest"
    and "teamIdsToGameId self host guest < NTEAMS self * (NTEAMS self - 1)"
proof -
  let ?m = "NTEAMS self - 1"
  let ?r = "if guest > host then guest - 1 else guest"
  have r: "0 \<le> ?r" "?r < ?m" using assms by auto
  have m: "0 < ?m" using r by linarith
  have "0 \<le> host * ?m" using assms m by simp
  then show "0 \<le> teamIdsToGameId self host guest" unfolding encode_cases using r by linarith
  have "host * ?m + ?r < (host + 1) * ?m" using r by (simp add: algebra_simps)
  also have "\<dots> \<le> NTEAMS self * ?m" using assms m by (intro mult_right_mono) auto
  finally show "teamIdsToGameId self host guest < NTEAMS self * (NTEAMS self - 1)"
    unfolding encode_cases .
qed

lemma decode_valid:
  assumes "2 \<le> NTEAMS self" "0 \<le> gid" "gid < NTEAMS self * (NTEAMS self - 1)"
  shows "\<exists>host guest. gameIdToTeamIds self gid = Inr (host, guest) \<and>
           0 \<le> host \<and> host < NTEAMS self \<and> 0 \<le> guest \<and> guest < NTEAMS self \<and> host \<noteq> guest \<and>
           teamIdsToGameId self host guest = gid"
proof -
  let ?m = "NTEAMS self - 1"
  let ?h = "gid div ?m"
  let ?r = "gid mod ?m"
  let ?g = "if ?r \<ge> ?h then ?r + 1 else ?r"
  have m: "0 < ?m" using assms by simp
  have h0: "0 \<le> ?h" using assms m by (simp add: pos_imp_zdiv_nonneg_iff)
  have dm: "?h * ?m + ?r = gid" by (rule div_mult_mod_eq)
  then have "?h * ?m < NTEAMS self * ?m" using assms(3) pos_mod_sign[OF m, of gid] by linarith
  then have h1: "?h < NTEAMS self" using m by (simp add: mult_less_cancel_right)
  have r0: "0 \<le> ?r" "?r < ?m" using m by simp_all
  have dec: "gameIdToTeamIds self gid = Inr (?h, ?g)"
    using m by (simp add: gameIdToTeamIds_def Let_def)
  have enc: "teamIdsToGameId self ?h ?g = gid"
    unfolding encode_cases using dm by auto
  show ?thesis using dec enc h0 h1 r0 by (intro exI[of _ ?h] exI[of _ ?g]) auto
qed

lemma experiment4_init: "Experiment_init 1000 4 3 = Inr experiment4"
  by (simp add: Experiment_init_def experiment4_def)

text \<open>
  Claim C1. For an even number of teams, at least two: decoding the identifier of an
  ordered pair of distinct teams gives the pair back; every identifier from 0 up to
  \<open>N * (N - 1)\<close> (excluded) decodes to an ordered pair of distinct teams whose identifier it
  is; and the identifiers of the ordered pairs are exactly those numbers, no two pairs
  sharing one.
\<close>

theorem codec_bijection:
  assumes "even (NTEAMS self)" and "2 \<le> NTEAMS self"
  shows "(\<forall>host guest. (host, guest) \<in> ordered_pairs self \<longrightarrow>
            gameIdToTeamIds self (teamIdsToGameId self host guest) = Inr (host, guest)) \<and>
         (\<forall>gid. 0 \<le> gid \<and> gid < NTEAMS self * (NTEAMS self - 1) \<longrightarrow>
            (\<exists>host guest. gameIdToTeamIds self gid = Inr (host, guest) \<and>
               (host, guest) \<in> ordered_pairs self \<and> teamIdsToGameId self host guest = gid)) \<and>
         (\<lambda>(host, guest). teamIdsToGameId self host guest) ` ordered_pairs self =
            {0..<NTEAMS self * (NTEAMS self - 1)} \<and>
         inj_on (\<lambda>(host, guest). teamIdsToGameId self host guest) (ordered_pairs self)"
proof (intro conjI allI impI)
  fix host guest assume "(host, guest) \<in> ordered_pairs self"
  then show "gameIdToTeamIds self (teamIdsToGameId self host guest) = Inr (host, guest)"
    by (simp add: ordered_pairs_def decode_encode)
next
  fix gid assume "0 \<le> gid \<and> gid < NTEAMS self * (NTEAMS self - 1)"
  then show "\<exists>host guest. gameIdToTeamIds self gid = Inr (host, guest) \<and>
      (host, guest) \<in> ordered_pairs self \<and> teamIdsToGameId self host guest = gid"
    using decode_valid[OF assms(2), of gid] by (auto simp: ordered_pairs_def)
next
  show "(\<lambda>(host, guest). teamIdsToGameId self host guest) ` ordered_pairs self =
          {0..<NTEAMS self * (NTEAMS self - 1)}"
  proof (intro equalityI subsetI)
    fix x assume "x \<in> (\<lambda>(host, guest). teamIdsToGameId self host guest) ` ordered_pairs self"
    then show "x \<in> {0..<NTEAMS self * (NTEAMS self - 1)}"
      using encode_range by (auto simp: ordered_pairs_def)
  next
    fix x assume "x \<in> {0..<NTEAMS self * (NTEAMS self - 1)}"
    then obtain host guest where "(host, guest) \<in> ordered_pairs self"
        "teamIdsToGameId self host guest = x"
      using decode_valid[OF assms(2), of x] by (auto simp: ordered_pairs_def)
    then show "x \<in> (\<lambda>(host, guest). teamIdsToGameId self host guest) ` ordered_pairs self"
      by force
  qed
next
  show "inj_on (\<lambda>(host, guest). teamIdsToGameId self host guest) (ordered_pairs self)"
  proof (rule inj_onI)
    fix p q assume p: "p \<in> ordered_pairs self" and q: "q \<in> ordered_pairs self"
      and eq: "(\<lambda>(host, guest). teamIdsToGameId self host guest) p =
               (\<lambda>(host, guest). teamIdsToGameId self host guest) q"
    obtain a b c d where pq: "p = (a, b)" "q = (c, d)" by (cases p, cases q) auto
    have ab: "gameIdToTeamIds self (teamIdsToGameId self a b) = Inr (a, b)"
      and cd: "gameIdToTeamIds self (teamIdsToGameId self c d) = Inr (c, d)"
      using p q pq by (simp_all add: ordered_pairs_def decode_encode)
    have "teamIdsToGameId self a b = teamIdsToGameId self c d"
      using eq unfolding pq by simp
    then have "gameIdToTeamIds self (teamIdsToGameId self a b) =
               gameIdToTeamIds self (teamIdsToGameId self c d)"
      by (rule arg_cong)
    then have "Inr (a, b) = (Inr (c, d) :: error + int \<times> int)"
      unfolding ab cd .
    then show "p = q" unfolding pq by simp
  qed
qed

theorem codec_bijection_witness:
  "even (NTEAMS experiment4) \<and> 2 \<le> NTEAMS experiment4 \<and>
   (2, 1) \<in> ordered_pairs experiment4 \<and>
   teamIdsToGameId experiment4 2 1 = 7 \<and>
   gameIdToTeamIds experiment4 7 = Inr (2, 1) \<and>
   (\<lambda>(host, guest). teamIdsToGameId experiment4 host guest) ` ordered_pairs experiment4 = {0..<12}"
proof -
  have e: "even (NTEAMS experiment4)" and n: "2 \<le> NTEAMS experiment4"
    by (simp_all add: experiment4_def)
  have p: "(2, 1) \<in> ordered_pairs experiment4"
    by (simp add: ordered_pairs_def experiment4_def)
  have i: "teamIdsToGameId experiment4 2 1 = 7"
    by (simp add: teamIdsToGameId_def experiment4_def)
  have k: "NTEAMS experiment4 * (NTEAMS experiment4 - 1) = 12"
    by (simp add: experiment4_def)
  note c = codec_bijection[OF e n]
  have d: "gameIdToTeamIds experiment4 7 = Inr (2, 1)"
    using c p i by (metis (no_types))
  have r: "(\<lambda>(host, guest). teamIdsToGameId experiment4 host guest) ` ordered_pairs experiment4
             = {0..<12}"
    using c k by simp
  from e n p i d r show ?thesis by blast
qed

section \<open>Rounds are perfect matchings\<close>

lemma batched2_even:
  "even (length xs) \<Longrightarrow> batched2 xs = map (\<lambda>(a, b). [a, b]) (pairup xs)"
  by (induction xs rule: batched2.induct) auto

lemma concat_pairup:
  "even (length xs) \<Longrightarrow> concat (map (\<lambda>(a, b). [a, b]) (pairup xs)) = xs"
  by (induction xs rule: pairup.induct) auto

lemma length_pairup: "length (pairup xs) = length xs div 2"
  by (induction xs rule: pairup.induct) auto

lemma pairup_members:
  "distinct xs \<Longrightarrow> (a, b) \<in> set (pairup xs) \<Longrightarrow> a \<in> set xs \<and> b \<in> set xs \<and> a \<noteq> b"
  by (induction xs rule: pairup.induct) auto

lemma map_result_Inr:
  "(\<And>x. x \<in> set xs \<Longrightarrow> f x = Inr (h x)) \<Longrightarrow> map_result f xs = Inr (map h xs)"
  by (induction xs) auto

lemma map_result_length:
  "map_result f xs = Inr ys \<Longrightarrow> length ys = length xs"
  by (induction xs arbitrary: ys) (auto split: sum.splits)


lemma star_even:
  assumes "even (length xs)"
  shows "map_result (teamIdsToGameId_star self) (batched2 xs) =
           Inr (map (\<lambda>(a, b). teamIdsToGameId self a b) (pairup xs))"
proof -
  have "map_result (teamIdsToGameId_star self) (map (\<lambda>(a, b). [a, b]) ps) =
          Inr (map (\<lambda>(a, b). teamIdsToGameId self a b) ps)" for ps
    by (induction ps) (auto simp: teamIdsToGameId_star_def)
  then show ?thesis by (simp add: batched2_even[OF assms])
qed

lemma randomRound_even:
  assumes "shuffle g [0..NTEAMS self - 1] = (perm, g')" "even (length perm)"
  shows "randomRound shuffle self g =
           Inr (sort (map (\<lambda>(a, b). teamIdsToGameId self a b) (pairup perm)), g')"
  using assms by (simp add: randomRound_def shuffled_def star_even)


lemma randomRound_sorted:
  "randomRound shuffle self g = Inr (gids, g') \<Longrightarrow> sorted gids"
  by (auto simp: randomRound_def Let_def split: prod.splits sum.splits)

lemma length_upto_int: "length [0..n - 1] = nat n"
  by simp

lemma perm_facts:
  assumes "mset perm = mset [0..n - 1]"
  shows "length perm = nat n" "distinct perm" "set perm = {0..n - 1}"
proof -
  show "length perm = nat n" using mset_eq_length[OF assms] by simp
  show "distinct perm" using assms by (metis distinct_upto mset_eq_imp_distinct_iff)
  show "set perm = {0..n - 1}" using mset_eq_setD[OF assms] by simp
qed

lemma gameIdToTeamIds_decode_pair:
  "NTEAMS self \<noteq> 1 \<Longrightarrow> gameIdToTeamIds self gid = Inr (decode_pair self gid)"
  by (simp add: gameIdToTeamIds_def decode_pair_def Let_def)

lemma decode_pair_encode:
  assumes "0 \<le> host" "host < NTEAMS self" "0 \<le> guest" "guest < NTEAMS self" "host \<noteq> guest"
  shows "decode_pair self (teamIdsToGameId self host guest) = (host, guest)"
proof -
  have "NTEAMS self \<noteq> 1" using assms by linarith
  from gameIdToTeamIds_decode_pair[OF this] decode_encode[OF assms] show ?thesis by simp
qed

lemma mset_teams_of: "mset (teams_of round) = (\<Sum>gm\<in>#mset round. mset [fst gm, snd gm])"
  by (induction round) (auto simp: teams_of_def)


lemma mset_teams_of_cong:
  "mset r1 = mset r2 \<Longrightarrow> mset (teams_of r1) = mset (teams_of r2)"
  by (simp add: mset_teams_of)

lemma teams_of_pairup: "even (length xs) \<Longrightarrow> teams_of (pairup xs) = xs"
  by (simp add: teams_of_def concat_pairup)

lemma decoded_mset:
  assumes "distinct perm" "set perm \<subseteq> {0..NTEAMS self - 1}"
  shows "mset (map (decode_pair self)
                   (sort (map (\<lambda>(a, b). teamIdsToGameId self a b) (pairup perm))))
         = mset (pairup perm)"
proof -
  have "decode_pair self ((\<lambda>(a, b). teamIdsToGameId self a b) p) = p"
    if "p \<in> set (pairup perm)" for p
  proof -
    obtain a b where p: "p = (a, b)" by (cases p)
    from pairup_members[OF assms(1) that[unfolded p]] assms(2)
    have "0 \<le> a" "a < NTEAMS self" "0 \<le> b" "b < NTEAMS self" "a \<noteq> b" by auto
    then show ?thesis unfolding p by (simp add: decode_pair_encode)
  qed
  then have "map (decode_pair self) (map (\<lambda>(a, b). teamIdsToGameId self a b) (pairup perm))
               = pairup perm"
    by (simp add: map_idI)
  then have "mset (pairup perm) =
      image_mset (decode_pair self) (mset (map (\<lambda>(a, b). teamIdsToGameId self a b) (pairup perm)))"
    by (metis mset_map)
  then show ?thesis by simp
qed

lemma count_teams_of_0:
  "count_list (teams_of round) t = 0 \<Longrightarrow> games_with t round = []"
  by (induction round) (auto simp: teams_of_def games_with_def split: if_splits)

lemma count_teams_of_1:
  "count_list (teams_of round) t = 1 \<Longrightarrow> length (games_with t round) = 1"
proof (induction round)
  case Nil then show ?case by (simp add: teams_of_def)
next
  case (Cons gm round)
  obtain h g where gm: "gm = (h, g)" by (cases gm)
  show ?case
  proof (cases "h = t \<or> g = t")
    case True
    with Cons.prems have "count_list (teams_of round) t = 0"
      by (auto simp: gm teams_of_def split: if_splits)
    from count_teams_of_0[OF this] True show ?thesis by (simp add: games_with_def gm)
  next
    case False
    with Cons.prems have "count_list (teams_of round) t = 1"
      by (auto simp: gm teams_of_def)
    from Cons.IH[OF this] False show ?thesis by (simp add: games_with_def gm)
  qed
qed

lemma round_shape:
  assumes e: "even (NTEAMS self)" and n: "2 \<le> NTEAMS self"
    and sh: "shuffle g [0..NTEAMS self - 1] = (perm, g')"
    and pm: "mset perm = mset [0..NTEAMS self - 1]"
  defines "gids \<equiv> sort (map (\<lambda>(a, b). teamIdsToGameId self a b) (pairup perm))"
  shows "randomRound shuffle self g = Inr (gids, g')"
    and "map_result (gameIdToTeamIds self) gids = Inr (map (decode_pair self) gids)"
    and "mset (map (decode_pair self) gids) = mset (pairup perm)"
    and "length gids = nat (NTEAMS self div 2)"
    and "mset (teams_of (map (decode_pair self) gids)) = mset [0..NTEAMS self - 1]"
proof -
  note pf = perm_facts[OF pm]
  have ev: "even (length perm)" using pf(1) e n by (simp add: even_nat_iff)
  show "randomRound shuffle self g = Inr (gids, g')"
    unfolding gids_def by (rule randomRound_even[of shuffle g self perm g', OF sh ev])
  have "NTEAMS self \<noteq> 1" using n by simp
  then show "map_result (gameIdToTeamIds self) gids = Inr (map (decode_pair self) gids)"
    by (intro map_result_Inr gameIdToTeamIds_decode_pair)
  show m: "mset (map (decode_pair self) gids) = mset (pairup perm)"
    unfolding gids_def using pf by (intro decoded_mset) auto
  show "length gids = nat (NTEAMS self div 2)"
    using pf(1) n by (simp add: gids_def length_pairup nat_div_distrib)
  show "mset (teams_of (map (decode_pair self) gids)) = mset [0..NTEAMS self - 1]"
    using mset_teams_of_cong[OF m] pm by (simp add: teams_of_pairup[OF ev])
qed

lemma mset_rotate1_eq: "mset (rotate1 xs) = mset xs"
  by (cases xs) simp_all

lemma mset_rotate_eq: "mset (rotate n xs) = mset xs"
  by (induction n) (simp_all add: mset_rotate1_eq)

lemma rotate_shuffle_permuting: "permuting rotate_shuffle"
  by (simp add: permuting_def rotate_shuffle_def mset_rotate_eq)

text \<open>
  Claim C2. For an even number of teams, at least two, and a shuffle that returns a
  rearrangement of the team identifiers, \<open>randomRound\<close> returns \<open>N / 2\<close> game identifiers;
  they all decode, and in the decoded round every team from 0 to \<open>N - 1\<close> appears exactly
  once among the hosts and guests, so it plays in exactly one game.
\<close>

theorem randomRound_perfect_matching:
  assumes "even (NTEAMS self)" and "2 \<le> NTEAMS self"
    and "mset (fst (shuffle g [0..NTEAMS self - 1])) = mset [0..NTEAMS self - 1]"
  shows "\<exists>gids g' games.
           randomRound shuffle self g = Inr (gids, g') \<and>
           length gids = nat (NTEAMS self div 2) \<and>
           map_result (gameIdToTeamIds self) gids = Inr games \<and>
           length games = nat (NTEAMS self div 2) \<and>
           mset (teams_of games) = mset [0..NTEAMS self - 1] \<and>
           (\<forall>team. 0 \<le> team \<and> team < NTEAMS self \<longrightarrow> length (games_with team games) = 1)"
proof -
  obtain perm g' where sh: "shuffle g [0..NTEAMS self - 1] = (perm, g')"
    by (cases "shuffle g [0..NTEAMS self - 1]")
  with assms(3) have pm: "mset perm = mset [0..NTEAMS self - 1]" by simp
  define gids where "gids = sort (map (\<lambda>(a, b). teamIdsToGameId self a b) (pairup perm))"
  define games where "games = map (decode_pair self) gids"
  note rs = round_shape[where shuffle=shuffle and g=g and g'=g', OF assms(1,2) sh pm, folded gids_def, folded games_def]
  have one: "length (games_with team games) = 1" if "0 \<le> team \<and> team < NTEAMS self" for team
  proof -
    have "count (mset (teams_of games)) team = 1"
      unfolding rs(5) using that distinct_count_atmost_1[of "[0..NTEAMS self - 1]"] by simp
    then show ?thesis by (intro count_teams_of_1) (simp add: count_mset)
  qed
  have "length games = nat (NTEAMS self div 2)" by (simp add: games_def rs(4))
  with rs one show ?thesis by blast
qed

theorem randomRound_perfect_matching_witness:
  "even (NTEAMS experiment4) \<and> 2 \<le> NTEAMS experiment4 \<and>
   mset (fst (rotate_shuffle 1 [0..NTEAMS experiment4 - 1])) = mset [0..NTEAMS experiment4 - 1] \<and>
   randomRound rotate_shuffle experiment4 1 = Inr ([4, 9], 2) \<and>
   map_result (gameIdToTeamIds experiment4) [4, 9] = Inr [(1, 2), (3, 0)] \<and>
   mset (teams_of [(1, 2), (3, 0)]) = mset [0..NTEAMS experiment4 - 1] \<and>
   length (games_with 3 [(1, 2), (3, 0)]) = 1"
proof -
  have e: "even (NTEAMS experiment4)" and n: "2 \<le> NTEAMS experiment4"
    by (simp_all add: experiment4_def)
  have p: "mset (fst (rotate_shuffle 1 [0..NTEAMS experiment4 - 1])) =
           mset [0..NTEAMS experiment4 - 1]"
    using rotate_shuffle_permuting unfolding permuting_def by blast
  have r: "randomRound rotate_shuffle experiment4 1 = Inr ([4, 9], 2)" by code_simp
  have d: "map_result (gameIdToTeamIds experiment4) [4, 9] = Inr [(1, 2), (3, 0)]" by code_simp
  have t: "(0::int) \<le> 3 \<and> 3 < NTEAMS experiment4" by (simp add: experiment4_def)
  from randomRound_perfect_matching[of experiment4 rotate_shuffle 1, OF e n p] r d t
  have "mset (teams_of [(1, 2), (3, 0)]) = mset [0..NTEAMS experiment4 - 1] \<and>
        length (games_with 3 [(1, 2), (3, 0)]) = 1"
    by auto
  with e n p r d show ?thesis by blast
qed

section \<open>Rounds are sorted by game identifier\<close>

text \<open>
  Claim C10. For an even number of teams and a shuffle that returns a rearrangement of the
  team identifiers, \<open>randomRound\<close> returns, and whatever list of game identifiers it
  returns is in ascending order.
\<close>

theorem randomRound_ascending:
  assumes "even (NTEAMS self)"
    and "mset (fst (shuffle g [0..NTEAMS self - 1])) = mset [0..NTEAMS self - 1]"
  shows "(\<exists>gids g'. randomRound shuffle self g = Inr (gids, g')) \<and>
         (\<forall>gids g'. randomRound shuffle self g = Inr (gids, g') \<longrightarrow> sorted gids)"
proof -
  obtain perm g' where sh: "shuffle g [0..NTEAMS self - 1] = (perm, g')"
    by (cases "shuffle g [0..NTEAMS self - 1]")
  with assms(2) have pm: "mset perm = mset [0..NTEAMS self - 1]" by simp
  have "length perm = nat (NTEAMS self)" by (rule perm_facts(1)[OF pm])
  moreover have "even (nat (NTEAMS self))"
    using assms(1) by (cases "0 \<le> NTEAMS self") (simp_all add: even_nat_iff)
  ultimately have "even (length perm)" by simp
  from randomRound_even[of shuffle g self perm g', OF sh this]
  have "\<exists>gids g'. randomRound shuffle self g = Inr (gids, g')" by blast
  moreover have "\<forall>gids g'. randomRound shuffle self g = Inr (gids, g') \<longrightarrow> sorted gids"
    using randomRound_sorted[of shuffle self g] by blast
  ultimately show ?thesis by blast
qed

theorem randomRound_ascending_witness:
  "even (NTEAMS experiment4) \<and>
   mset (fst (rotate_shuffle 1 [0..NTEAMS experiment4 - 1])) = mset [0..NTEAMS experiment4 - 1] \<and>
   randomRound rotate_shuffle experiment4 1 = Inr ([4, 9], 2) \<and> sorted [4, 9 :: int]"
proof -
  have e: "even (NTEAMS experiment4)" by (simp add: experiment4_def)
  have p: "mset (fst (rotate_shuffle 1 [0..NTEAMS experiment4 - 1])) =
           mset [0..NTEAMS experiment4 - 1]"
    using rotate_shuffle_permuting unfolding permuting_def by blast
  have r: "randomRound rotate_shuffle experiment4 1 = Inr ([4, 9], 2)" by code_simp
  from randomRound_ascending[of experiment4 rotate_shuffle 1, OF e p] r
  have "sorted [4, 9 :: int]" by blast
  with e p r show ?thesis by blast
qed

section \<open>The round trip through the codec keeps the drawn order\<close>

text \<open>
  Claim C8 says that for some even number of teams and some drawn pair \<open>(a, b)\<close> the round
  trip through the codec gives \<open>(b, a)\<close>. No such pair exists.
\<close>

theorem roundtrip_swap_counterexample:
  "\<not> (\<exists>self a b. even (NTEAMS self) \<and> 2 \<le> NTEAMS self \<and> (a, b) \<in> ordered_pairs self \<and>
         gameIdToTeamIds self (teamIdsToGameId self a b) = Inr (b, a))"
proof
  assume "\<exists>self a b. even (NTEAMS self) \<and> 2 \<le> NTEAMS self \<and> (a, b) \<in> ordered_pairs self \<and>
         gameIdToTeamIds self (teamIdsToGameId self a b) = Inr (b, a)"
  then obtain self a b where p: "(a, b) \<in> ordered_pairs self"
    and sw: "gameIdToTeamIds self (teamIdsToGameId self a b) = Inr (b, a)" by blast
  from p have ab: "gameIdToTeamIds self (teamIdsToGameId self a b) = Inr (a, b)"
    by (simp add: ordered_pairs_def decode_encode)
  from sw[unfolded ab] have "(a, b) = (b, a)" by (rule sum.inject(2)[THEN iffD1])
  then have "a = b" by (rule prod.inject[THEN iffD1, THEN conjunct1])
  with p show False by (simp add: ordered_pairs_def)
qed

lemma batched2_pairup_games:
  assumes "even (length xs)" and "mset games = mset (pairup xs)"
  shows "mset (map (\<lambda>(host, guest). [host, guest]) games) = mset (batched2 xs)"
proof -
  have "mset (map (\<lambda>(host, guest). [host, guest]) games) =
        image_mset (\<lambda>(host, guest). [host, guest]) (mset (pairup xs))"
    using assms(2) by (metis mset_map)
  then show ?thesis by (simp add: batched2_even[OF assms(1)])
qed

text \<open>
  Claim C8, amended. For an even number of teams, at least two, the round trip through the
  codec gives every ordered pair of distinct teams back unchanged, and the decoded games of
  a round are exactly the consecutive pairs of the shuffled list, the first of each pair
  as host and the second as guest; only their position in the round changes, by the sort.
\<close>

theorem randomRound_keeps_draw_order:
  assumes "even (NTEAMS self)" and "2 \<le> NTEAMS self"
    and "shuffle g [0..NTEAMS self - 1] = (perm, g')"
    and "mset perm = mset [0..NTEAMS self - 1]"
  shows "(\<forall>host guest. (host, guest) \<in> ordered_pairs self \<longrightarrow>
            gameIdToTeamIds self (teamIdsToGameId self host guest) = Inr (host, guest)) \<and>
         (\<exists>gids games. randomRound shuffle self g = Inr (gids, g') \<and>
            map_result (gameIdToTeamIds self) gids = Inr games \<and>
            mset (map (\<lambda>(host, guest). [host, guest]) games) = mset (batched2 perm))"
proof -
  define gids where "gids = sort (map (\<lambda>(a, b). teamIdsToGameId self a b) (pairup perm))"
  note rs = round_shape[where shuffle=shuffle and g=g and g'=g', OF assms, folded gids_def]
  have ev: "even (length perm)"
    using perm_facts(1)[OF assms(4)] assms(1,2) by (simp add: even_nat_iff)
  have "mset (map (\<lambda>(host, guest). [host, guest]) (map (decode_pair self) gids)) =
          mset (batched2 perm)"
    by (rule batched2_pairup_games[OF ev rs(3)])
  with rs(1,2) have "\<exists>gids games. randomRound shuffle self g = Inr (gids, g') \<and>
            map_result (gameIdToTeamIds self) gids = Inr games \<and>
            mset (map (\<lambda>(host, guest). [host, guest]) games) = mset (batched2 perm)"
    by blast
  moreover have "\<forall>host guest. (host, guest) \<in> ordered_pairs self \<longrightarrow>
            gameIdToTeamIds self (teamIdsToGameId self host guest) = Inr (host, guest)"
    by (simp add: ordered_pairs_def decode_encode)
  ultimately show ?thesis by blast
qed

theorem randomRound_keeps_draw_order_witness:
  "even (NTEAMS experiment4) \<and> 2 \<le> NTEAMS experiment4 \<and>
   rotate_shuffle 1 [0..NTEAMS experiment4 - 1] = ([1, 2, 3, 0], 2) \<and>
   mset [1, 2, 3, 0] = mset [0..NTEAMS experiment4 - 1] \<and>
   (3, 0) \<in> ordered_pairs experiment4 \<and>
   gameIdToTeamIds experiment4 (teamIdsToGameId experiment4 3 0) = Inr (3, 0) \<and>
   randomRound rotate_shuffle experiment4 1 = Inr ([4, 9], 2) \<and>
   map_result (gameIdToTeamIds experiment4) [4, 9] = Inr [(1, 2), (3, 0)] \<and>
   mset (map (\<lambda>(host, guest). [host, guest]) [(1, 2), (3, 0)]) = mset (batched2 [1, 2, 3, 0 :: int])"
proof -
  have e: "even (NTEAMS experiment4)" and n: "2 \<le> NTEAMS experiment4"
    by (simp_all add: experiment4_def)
  have s: "rotate_shuffle 1 [0..NTEAMS experiment4 - 1] = ([1, 2, 3, 0], 2)" by code_simp
  have "mset (fst (rotate_shuffle 1 [0..NTEAMS experiment4 - 1])) =
           mset [0..NTEAMS experiment4 - 1]"
    using rotate_shuffle_permuting unfolding permuting_def by blast
  then have p: "mset [1, 2, 3, 0] = mset [0..NTEAMS experiment4 - 1]" unfolding s by simp
  have o: "(3, 0) \<in> ordered_pairs experiment4" by (simp add: ordered_pairs_def experiment4_def)
  have r: "randomRound rotate_shuffle experiment4 1 = Inr ([4, 9], 2)" by code_simp
  have d: "map_result (gameIdToTeamIds experiment4) [4, 9] = Inr [(1, 2), (3, 0)]" by code_simp
  note t = randomRound_keeps_draw_order[of experiment4 rotate_shuffle 1 "[1, 2, 3, 0]" 2, OF e n s p]
  from t o have c: "gameIdToTeamIds experiment4 (teamIdsToGameId experiment4 3 0) = Inr (3, 0)"
    by blast
  from t r d have m: "mset (map (\<lambda>(host, guest). [host, guest]) [(1, 2), (3, 0)]) =
      mset (batched2 [1, 2, 3, 0 :: int])"
    by auto
  from e n s p o c r d m show ?thesis by blast
qed

section \<open>The hand-built tournament\<close>

text \<open>
  Claim C4, amended. On the hand-built tournament of four teams with streak threshold 3 the
  three counters return 0 streak violations, 0 double round-robin violations and 6
  no-repeat violations: rounds 0 and 1, 2 and 3, 4 and 5 hold the same two pairings with
  host and guest exchanged, and each such rematch counts once.
\<close>

theorem fixture_counters:
  "(countMaxStreakViolations experiment4 fixture,
    countDoubleRoundRobinViolations experiment4 fixture,
    countNoRepeatViolations experiment4 fixture) = (Inr 0, 0, Inr 6)"
  by code_simp

text \<open>Claim C4 as stated, that the three counters return \<open>(0, 0, 0)\<close>, fails.\<close>

theorem fixture_counters_counterexample:
  "(countMaxStreakViolations experiment4 fixture,
    countDoubleRoundRobinViolations experiment4 fixture,
    countNoRepeatViolations experiment4 fixture) \<noteq> (Inr 0, 0, Inr 0)"
  by code_simp

text \<open>
  Claim C5, amended. With round 0 copied to index 1 the tournament has seven rounds, and
  \<open>countNoRepeatViolations\<close> of the four-team experiment reads the rounds 0 to 5 only: it
  returns 6, the same as on the unchanged tournament.
\<close>

theorem fixture_dup0_noRepeat:
  "countNoRepeatViolations experiment4 fixture_dup0 = Inr 6 \<and>
   countNoRepeatViolations experiment4 fixture_dup0 = countNoRepeatViolations experiment4 fixture"
  by code_simp

text \<open>Claim C5 as stated, an increase by exactly 2 over the unchanged tournament, fails.\<close>

theorem fixture_dup0_counterexample:
  "countNoRepeatViolations experiment4 fixture = Inr 6 \<and>
   countNoRepeatViolations experiment4 fixture_dup0 \<noteq> Inr (6 + 2)"
  by code_simp

text \<open>Over all six pairs of adjacent rounds of the seven-round tournament the count would be 8.\<close>

lemma fixture_dup0_all_pairs:
  "countNoRepeat_loop fixture_dup0 [1..int (length fixture_dup0) - 1] 0 = Inr 8"
  by code_simp

section \<open>The experiment loop and its histograms\<close>

lemma total_update:
  "total (AList.update k ((case map_of dic k of None \<Rightarrow> 0 | Some v \<Rightarrow> v) + inc) dic)
     = total dic + inc"
  by (induction dic) (auto simp: total_def)

lemma total_increment: "total (increment dic key inc 0) = total dic + inc"
  by (simp add: increment_def Let_def total_update)

lemma execute_loop_totals:
  "execute_loop shuffle n self g = Inr (self', g') \<Longrightarrow>
     total (maxStreakViolations self') = total (maxStreakViolations self) + int n \<and>
     total (doubleRoundRobinViolations self') = total (doubleRoundRobinViolations self) + int n \<and>
     total (noRepeatViolations self') = total (noRepeatViolations self) + int n"
proof (induction n arbitrary: self g)
  case 0
  then show ?case by simp
next
  case (Suc n)
  from Suc.prems obtain tournament g1 msv nrv where
    step: "execute_loop shuffle n
             (self\<lparr>maxStreakViolations := increment (maxStreakViolations self) msv 1 0,
                   doubleRoundRobinViolations := increment (doubleRoundRobinViolations self)
                     (countDoubleRoundRobinViolations
                        (self\<lparr>maxStreakViolations := increment (maxStreakViolations self) msv 1 0\<rparr>)
                        tournament) 1 0,
                   noRepeatViolations := increment (noRepeatViolations self) nrv 1 0\<rparr>) g1
           = Inr (self', g')"
    by (auto simp: Let_def split: sum.splits prod.splits)
  from Suc.IH[OF step] show ?case by (simp add: total_increment)
qed


lemma teams_of_members:
  "(host, guest) \<in> set round \<Longrightarrow> host \<in> set (teams_of round) \<and> guest \<in> set (teams_of round)"
  by (induction round) (auto simp: teams_of_def)

lemma randomTournament_loop_total:
  assumes "even (NTEAMS self)" and "2 \<le> NTEAMS self" and "permuting shuffle"
  shows "\<exists>t g'. randomTournament_loop shuffle self n g = Inr (t, g') \<and> length t = n \<and>
           (\<forall>round\<in>set t. mset (teams_of round) = mset [0..NTEAMS self - 1])"
proof (induction n arbitrary: g)
  case 0
  then show ?case by simp
next
  case (Suc n)
  obtain perm g1 where sh: "shuffle g [0..NTEAMS self - 1] = (perm, g1)"
    by (cases "shuffle g [0..NTEAMS self - 1]")
  have pm: "mset perm = mset [0..NTEAMS self - 1]"
    using assms(3) sh unfolding permuting_def by (metis fst_conv)
  define gids where "gids = sort (map (\<lambda>(a, b). teamIdsToGameId self a b) (pairup perm))"
  note rs = round_shape[where shuffle=shuffle and g=g and g'=g1, OF assms(1,2) sh pm,
      folded gids_def]
  from Suc.IH[of g1] obtain t g' where
    t: "randomTournament_loop shuffle self n g1 = Inr (t, g')" "length t = n"
       "\<forall>round\<in>set t. mset (teams_of round) = mset [0..NTEAMS self - 1]"
    by blast
  have "randomTournament_loop shuffle self (Suc n) g =
          Inr (map (decode_pair self) gids # t, g')"
    by (simp add: rs(1,2) t(1))
  with t(2,3) rs(5) show ?case by auto
qed

lemma streak_game_ok:
  assumes "fst ` set streak = K" and "host \<in> K" and "guest \<in> K"
  shows "\<exists>streak' v'. streak_game self (host, guest) (streak, v) = Inr (streak', v') \<and>
           fst ` set streak' = K"
proof -
  from assms(1,2) obtain home away where h: "map_of streak host = Some (home, away)"
    by (metis map_of_eq_None_iff not_None_eq surj_pair)
  let ?s1 = "AList.update host (home + 1, 0) streak"
  have k1: "fst ` set ?s1 = K" using assms(1,2) by (auto simp: dom_update)
  with assms(3) obtain home' away' where g: "map_of ?s1 guest = Some (home', away')"
    by (metis map_of_eq_None_iff not_None_eq surj_pair)
  have "fst ` set (AList.update guest (0, away' + 1) ?s1) = K"
    using k1 assms(3) by (auto simp: dom_update)
  then show ?thesis
    unfolding streak_game_def using h g by (simp add: Let_def)
qed

lemma streak_round_ok:
  assumes "fst ` set (fst st) = K" and "\<forall>(host, guest)\<in>set round. host \<in> K \<and> guest \<in> K"
  shows "\<exists>st'. streak_round self round st = Inr st' \<and> fst ` set (fst st') = K"
  using assms
proof (induction round arbitrary: st)
  case Nil
  then show ?case by simp
next
  case (Cons gm round)
  obtain host guest where gm: "gm = (host, guest)" by (cases gm)
  obtain streak v where st: "st = (streak, v)" by (cases st)
  from Cons.prems gm st have "fst ` set streak = K" "host \<in> K" "guest \<in> K" by auto
  from streak_game_ok[OF this, of self v] obtain streak' v' where
    s: "streak_game self (host, guest) (streak, v) = Inr (streak', v')" "fst ` set streak' = K"
    by blast
  from Cons.IH[of "(streak', v')"] s(2) Cons.prems(2)
  obtain st' where "streak_round self round (streak', v') = Inr st'" "fst ` set (fst st') = K"
    by auto
  then show ?case using s(1) gm st by simp
qed

lemma streak_rounds_ok:
  assumes "fst ` set (fst st) = K"
    and "\<forall>round\<in>set tournament. \<forall>(host, guest)\<in>set round. host \<in> K \<and> guest \<in> K"
  shows "\<exists>st'. streak_rounds self tournament st = Inr st' \<and> fst ` set (fst st') = K"
  using assms
proof (induction tournament arbitrary: st)
  case Nil
  then show ?case by simp
next
  case (Cons round tournament)
  from Cons.prems have "\<forall>(host, guest)\<in>set round. host \<in> K \<and> guest \<in> K" by simp
  from streak_round_ok[OF Cons.prems(1) this, of self] obtain st1 where
    s: "streak_round self round st = Inr st1" "fst ` set (fst st1) = K" by blast
  from Cons.IH[OF s(2)] Cons.prems(2)
  obtain st' where "streak_rounds self tournament st1 = Inr st'" "fst ` set (fst st') = K"
    by auto
  then show ?case using s(1) by simp
qed

lemma countMaxStreakViolations_ok:
  assumes "\<forall>round\<in>set tournament. mset (teams_of round) = mset [0..NTEAMS self - 1]"
  shows "\<exists>v. countMaxStreakViolations self tournament = Inr v"
proof -
  let ?K = "{0..NTEAMS self - 1}"
  let ?st = "(map (\<lambda>team. (team, (0 :: int, 0 :: int))) [0..NTEAMS self - 1], 0 :: int)"
  have k: "fst ` set (fst ?st) = ?K" by (simp add: image_image)
  have "\<forall>round\<in>set tournament. \<forall>(host, guest)\<in>set round. host \<in> ?K \<and> guest \<in> ?K"
  proof (intro ballI, clarify)
    fix round host guest assume r: "round \<in> set tournament" and m: "(host, guest) \<in> set round"
    from assms r have "set (teams_of round) = ?K" by (metis mset_eq_setD set_upto)
    with teams_of_members[OF m] show "host \<in> ?K \<and> guest \<in> ?K" by simp
  qed
  from streak_rounds_ok[OF k this, of self] obtain st' where
    "streak_rounds self tournament ?st = Inr st'" by blast
  then show ?thesis
    by (cases st') (simp add: countMaxStreakViolations_def)
qed

lemma countNoRepeat_loop_ok:
  "\<forall>i\<in>set idxs. 1 \<le> i \<and> i < int (length tournament) \<Longrightarrow>
     \<exists>v. countNoRepeat_loop tournament idxs violations = Inr v"
proof (induction idxs arbitrary: violations)
  case Nil
  then show ?case by simp
next
  case (Cons i idxs)
  then have i: "1 \<le> i" "i < int (length tournament)" by simp_all
  then have "getitem tournament i = Inr (tournament ! nat i)"
    "getitem tournament (i - 1) = Inr (tournament ! nat (i - 1))"
    by (simp_all add: getitem_def)
  with Cons show ?case by (simp add: Let_def)
qed

lemma countNoRepeatViolations_ok:
  assumes "length tournament = nat (NROUNDS self)"
  shows "\<exists>v. countNoRepeatViolations self tournament = Inr v"
  unfolding countNoRepeatViolations_def
  by (rule countNoRepeat_loop_ok) (use assms in auto)

lemma execute_loop_total:
  assumes "even (NTEAMS self)" and "2 \<le> NTEAMS self" and "permuting shuffle"
  shows "\<exists>self' g'. execute_loop shuffle n self g = Inr (self', g')"
  using assms(1,2)
proof (induction n arbitrary: self g)
  case 0
  then show ?case by simp
next
  case (Suc n)
  from randomTournament_loop_total[OF Suc.prems assms(3), of "nat (NROUNDS self)" g]
  obtain t g1 where t: "randomTournament shuffle self g = Inr (t, g1)"
    "length t = nat (NROUNDS self)"
    "\<forall>round\<in>set t. mset (teams_of round) = mset [0..NTEAMS self - 1]"
    unfolding randomTournament_def by blast
  from countMaxStreakViolations_ok[OF t(3)] obtain msv where
    m: "countMaxStreakViolations self t = Inr msv" by blast
  define self1 where
    "self1 = self\<lparr>maxStreakViolations := increment (maxStreakViolations self) msv 1 0\<rparr>"
  define self2 where
    "self2 = self1\<lparr>doubleRoundRobinViolations :=
       increment (doubleRoundRobinViolations self1) (countDoubleRoundRobinViolations self1 t) 1 0\<rparr>"
  have "length t = nat (NROUNDS self2)" using t(2) by (simp add: self2_def self1_def)
  from countNoRepeatViolations_ok[OF this] obtain nrv where
    r: "countNoRepeatViolations self2 t = Inr nrv" by blast
  define self3 where
    "self3 = self2\<lparr>noRepeatViolations := increment (noRepeatViolations self2) nrv 1 0\<rparr>"
  have "even (NTEAMS self3)" "2 \<le> NTEAMS self3"
    using Suc.prems by (simp_all add: self3_def self2_def self1_def)
  from Suc.IH[OF this, of g1] obtain self' g' where
    "execute_loop shuffle n self3 g1 = Inr (self', g')" by blast
  then show ?case
    using t(1) m r by (simp add: Let_def self3_def[symmetric] self2_def[symmetric] self1_def[symmetric])
qed

lemma init_fields:
  assumes "Experiment_init repetitions nTeams maxStreak = Inr self"
  shows "NREPETITIONS self = repetitions" "NTEAMS self = nTeams"
    "NROUNDS self = 2 * (nTeams - 1)" "MAXSTREAK self = maxStreak"
    "maxStreakViolations self = []" "doubleRoundRobinViolations self = []"
    "noRepeatViolations self = []" "nTeams \<noteq> 1"
  using assms by (auto simp: Experiment_init_def Let_def split: if_splits)


lemma loop_totals_from_init:
  assumes "Experiment_init repetitions nTeams maxStreak = Inr self" and "0 \<le> repetitions"
    and "execute_loop shuffle (nat (NREPETITIONS self)) self g = Inr (self', g')"
  shows "total (maxStreakViolations self') = repetitions \<and>
         total (doubleRoundRobinViolations self') = repetitions \<and>
         total (noRepeatViolations self') = repetitions"
  using execute_loop_totals[OF assms(3)] assms(2)
  by (simp add: init_fields[OF assms(1)] total_def)

lemma loop_completes:
  assumes "Experiment_init repetitions nTeams maxStreak = Inr self"
    and "even nTeams" and "2 \<le> nTeams" and "permuting shuffle"
  shows "\<exists>self' g'. execute_loop shuffle (nat (NREPETITIONS self)) self g = Inr (self', g')"
  using assms(2-)
  by (intro execute_loop_total) (simp_all add: init_fields(2)[OF assms(1)])

lemma execute_after_loop:
  "execute_loop shuffle (nat (NREPETITIONS self)) self g = Inr (self', g') \<Longrightarrow>
     execute shuffle write self g =
       (case saveResults write self' of None \<Rightarrow> Inr (self', g') | Some e \<Rightarrow> Inl (e, self'))"
  by (simp add: execute_def split: option.splits)

lemma execute_returns_loop:
  "execute shuffle write self g = Inr (self', g') \<Longrightarrow>
     execute_loop shuffle (nat (NREPETITIONS self)) self g = Inr (self', g')"
  by (auto simp: execute_def split: sum.splits option.splits)

text \<open>
  Claim C3. For an experiment as built by the constructor, with a repetition count that is
  not negative: whenever the loop of \<open>execute\<close> completes, the frequencies of each of the
  three histograms sum to the repetition count; and the loop does complete when the number
  of teams is even, at least two, and the shuffle returns rearrangements. The same holds of
  the object that \<open>execute\<close> returns; after the loop \<open>execute\<close> writes the results, and it
  returns the object of the loop when the write succeeds and fails with the error of the
  write, the object being the same, when it does not.
\<close>

theorem execute_histogram_totals:
  assumes "Experiment_init repetitions nTeams maxStreak = Inr self" and "0 \<le> repetitions"
  shows "(\<forall>self' g'. execute_loop shuffle (nat (NREPETITIONS self)) self g = Inr (self', g') \<longrightarrow>
            total (maxStreakViolations self') = repetitions \<and>
            total (doubleRoundRobinViolations self') = repetitions \<and>
            total (noRepeatViolations self') = repetitions) \<and>
         (even nTeams \<and> 2 \<le> nTeams \<and> permuting shuffle \<longrightarrow>
            (\<exists>self' g'. execute_loop shuffle (nat (NREPETITIONS self)) self g = Inr (self', g') \<and>
               execute shuffle write self g =
                 (case saveResults write self' of
                    None \<Rightarrow> Inr (self', g') | Some e \<Rightarrow> Inl (e, self')))) \<and>
         (\<forall>self' g'. execute shuffle write self g = Inr (self', g') \<longrightarrow>
            total (maxStreakViolations self') = repetitions \<and>
            total (doubleRoundRobinViolations self') = repetitions \<and>
            total (noRepeatViolations self') = repetitions)"
proof (intro conjI allI impI)
  fix self' g'
  assume "execute_loop shuffle (nat (NREPETITIONS self)) self g = Inr (self', g')"
  from loop_totals_from_init[OF assms this]
  show "total (maxStreakViolations self') = repetitions"
    "total (doubleRoundRobinViolations self') = repetitions"
    "total (noRepeatViolations self') = repetitions" by simp_all
next
  assume "even nTeams \<and> 2 \<le> nTeams \<and> permuting shuffle"
  then obtain self' g' where
    l: "execute_loop shuffle (nat (NREPETITIONS self)) self g = Inr (self', g')"
    using loop_completes[OF assms(1), of shuffle g] by blast
  from l execute_after_loop[OF l, of "write"]
  show "\<exists>self' g'. execute_loop shuffle (nat (NREPETITIONS self)) self g = Inr (self', g') \<and>
          execute shuffle write self g =
            (case saveResults write self' of
               None \<Rightarrow> Inr (self', g') | Some e \<Rightarrow> Inl (e, self'))" by blast
next
  fix self' g'
  assume "execute shuffle write self g = Inr (self', g')"
  from loop_totals_from_init[OF assms execute_returns_loop[OF this]]
  show "total (maxStreakViolations self') = repetitions"
    "total (doubleRoundRobinViolations self') = repetitions"
    "total (noRepeatViolations self') = repetitions" by simp_all
qed

theorem execute_histogram_totals_witness:
  "Experiment_init 2 4 3 = Inr experiment4_twice \<and> (0 :: int) \<le> 2 \<and>
   even (4 :: int) \<and> (2 :: int) \<le> 4 \<and> permuting rotate_shuffle \<and>
   execute_loop rotate_shuffle (nat (NREPETITIONS experiment4_twice)) experiment4_twice 0 =
     Inr (completed_twice, 12) \<and>
   execute rotate_shuffle write_ok experiment4_twice 0 = Inr (completed_twice, 12) \<and>
   execute rotate_shuffle write_fails experiment4_twice 0 = Inl (OSError, completed_twice) \<and>
   total (maxStreakViolations completed_twice) = 2 \<and>
   total (doubleRoundRobinViolations completed_twice) = 2 \<and>
   total (noRepeatViolations completed_twice) = 2"
proof -
  have i: "Experiment_init 2 4 3 = Inr experiment4_twice"
    by (simp add: Experiment_init_def experiment4_twice_def experiment4_def)
  have r: "(0 :: int) \<le> 2" by simp
  have l: "execute_loop rotate_shuffle (nat (NREPETITIONS experiment4_twice)) experiment4_twice 0
             = Inr (completed_twice, 12)"
    by code_simp
  have x: "execute rotate_shuffle write_ok experiment4_twice 0 = Inr (completed_twice, 12)"
    by code_simp
  have y: "execute rotate_shuffle write_fails experiment4_twice 0 = Inl (OSError, completed_twice)"
    by code_simp
  from execute_histogram_totals[OF i r, of rotate_shuffle 0 write_ok] l
  have "total (maxStreakViolations completed_twice) = 2 \<and>
        total (doubleRoundRobinViolations completed_twice) = 2 \<and>
        total (noRepeatViolations completed_twice) = 2" by blast
  with i l x y rotate_shuffle_permuting show ?thesis by simp
qed

section \<open>No configuration is validated\<close>








section \<open>Parity of the double round-robin count\<close>

lemma fold_plus_sum_list:
  "fold (\<lambda>x (acc :: int). acc + f x) xs a = a + sum_list (map f xs)"
  by (induction xs arbitrary: a) simp_all

lemma fold_plus2_sum_list:
  "fold (\<lambda>x (acc :: int). acc + f x + h x) xs a = a + sum_list (map (\<lambda>x. f x + h x) xs)"
  by (induction xs arbitrary: a) simp_all

lemma countDoubleRoundRobinViolations_sum:
  "countDoubleRoundRobinViolations self tournament =
     (\<Sum>host\<leftarrow>[0..NTEAMS self - 1]. \<Sum>guest\<leftarrow>[host + 1..NTEAMS self - 1].
        \<bar>1 - Counter (flatten tournament) (host, guest)\<bar> +
        \<bar>1 - Counter (flatten tournament) (guest, host)\<bar>)"
  by (simp add: countDoubleRoundRobinViolations_def Let_def fold_plus2_sum_list fold_plus_sum_list)

lemma even_sum_list_cong:
  "(\<And>x. x \<in> set xs \<Longrightarrow> even (f x :: int) = even (h x :: int)) \<Longrightarrow>
     even (sum_list (map f xs)) = even (sum_list (map h xs))"
  by (induction xs) simp_all

lemma sum_list_upto: "(\<Sum>x\<leftarrow>[i..j]. f x) = (\<Sum>x\<in>{i..j}. f x :: int)"
  by (simp add: sum_list_distinct_conv_sum_set)

lemma pair_hits:
  assumes "0 \<le> a" "a < n" "0 \<le> b" "b < n" "a \<noteq> b"
  shows "(\<Sum>host\<leftarrow>[0..n - 1]. \<Sum>guest\<leftarrow>[host + 1..n - 1].
           (if (a, b) = (host, guest) then 1 else 0) + (if (a, b) = (guest, host) then 1 else (0::int))) = 1"
proof -
  have 1: "(\<Sum>guest\<in>{host + 1..n - 1}. (if a = host \<and> b = guest then 1 else (0::int)))
             = (if host = a \<and> a < b then 1 else 0)" for host
    using assms by (cases "host = a") (auto simp: sum.delta')
  have 2: "(\<Sum>guest\<in>{host + 1..n - 1}. (if a = guest \<and> b = host then 1 else (0::int)))
             = (if host = b \<and> b < a then 1 else 0)" for host
    using assms by (cases "host = b") (auto simp: sum.delta')
  have 3: "(\<Sum>host\<in>{0..n - 1}. (if host = a \<and> a < b then 1 else (0::int))) = (if a < b then 1 else 0)"
    using assms by (cases "a < b") (auto simp: sum.delta)
  have 4: "(\<Sum>host\<in>{0..n - 1}. (if host = b \<and> b < a then 1 else (0::int))) = (if b < a then 1 else 0)"
    using assms by (cases "b < a") (auto simp: sum.delta)
  have "(\<Sum>host\<leftarrow>[0..n - 1]. \<Sum>guest\<leftarrow>[host + 1..n - 1].
           (if (a, b) = (host, guest) then 1 else 0) + (if (a, b) = (guest, host) then 1 else (0::int)))
        = (\<Sum>host\<in>{0..n - 1}. (\<Sum>guest\<in>{host + 1..n - 1}. (if a = host \<and> b = guest then 1 else 0)) +
             (\<Sum>guest\<in>{host + 1..n - 1}. (if a = guest \<and> b = host then 1 else 0)))"
    by (simp add: sum_list_upto sum.distrib)
  also have "\<dots> = (\<Sum>host\<in>{0..n - 1}. (if host = a \<and> a < b then 1 else 0) +
                      (if host = b \<and> b < a then 1 else 0))"
    unfolding 1 2 ..
  also have "\<dots> = (if a < b then 1 else 0) + (if b < a then 1 else 0)"
    unfolding sum.distrib 3 4 ..
  also have "\<dots> = 1" using assms(5) by auto
  finally show ?thesis .
qed

lemma Counter_Cons: "Counter (x # xs) p = Counter xs p + (if x = p then 1 else 0)"
  by (simp add: Counter_def)

lemma counts_sum_length:
  assumes "\<forall>(host, guest)\<in>set games. 0 \<le> host \<and> host < n \<and> 0 \<le> guest \<and> guest < n \<and> host \<noteq> guest"
  shows "(\<Sum>host\<leftarrow>[0..n - 1]. \<Sum>guest\<leftarrow>[host + 1..n - 1].
           Counter games (host, guest) + Counter games (guest, host)) = int (length games)"
  using assms
proof (induction games)
  case Nil
  then show ?case by (simp add: Counter_def)
next
  case (Cons gm games)
  obtain a b where gm: "gm = (a, b)" by (cases gm)
  with Cons.prems have v: "0 \<le> a" "a < n" "0 \<le> b" "b < n" "a \<noteq> b" by auto
  have "(\<Sum>host\<leftarrow>[0..n - 1]. \<Sum>guest\<leftarrow>[host + 1..n - 1].
           Counter (gm # games) (host, guest) + Counter (gm # games) (guest, host))
        = (\<Sum>host\<leftarrow>[0..n - 1]. \<Sum>guest\<leftarrow>[host + 1..n - 1].
             (Counter games (host, guest) + Counter games (guest, host)) +
             ((if (a, b) = (host, guest) then 1 else 0) + (if (a, b) = (guest, host) then 1 else 0)))"
    unfolding Counter_Cons gm by (simp add: algebra_simps)
  also have "\<dots> = (\<Sum>host\<leftarrow>[0..n - 1]. \<Sum>guest\<leftarrow>[host + 1..n - 1].
             Counter games (host, guest) + Counter games (guest, host)) +
        (\<Sum>host\<leftarrow>[0..n - 1]. \<Sum>guest\<leftarrow>[host + 1..n - 1].
           (if (a, b) = (host, guest) then 1 else 0) + (if (a, b) = (guest, host) then 1 else 0))"
    by (simp only: sum_list_addf)
  also have "\<dots> = int (length games) + 1"
    using Cons.IH Cons.prems pair_hits[OF v] by simp
  finally show ?case by simp
qed

lemma length_teams_of: "length (teams_of round) = 2 * length round"
  by (induction round) (auto simp: teams_of_def)

lemma distinct_teams_of:
  "distinct (teams_of round) \<Longrightarrow> (host, guest) \<in> set round \<Longrightarrow> host \<noteq> guest"
  by (induction round) (auto simp: teams_of_def)

lemma perfect_matching_facts:
  assumes "perfect_matching self round"
  shows "mset (teams_of round) = mset [0..NTEAMS self - 1]"
    and "2 * length round = nat (NTEAMS self)"
    and "\<forall>(host, guest)\<in>set round.
           0 \<le> host \<and> host < NTEAMS self \<and> 0 \<le> guest \<and> guest < NTEAMS self \<and> host \<noteq> guest"
proof -
  have "mset (sort (teams_of round)) = mset [0..NTEAMS self - 1]"
    using assms by (simp only: perfect_matching_def)
  then show m: "mset (teams_of round) = mset [0..NTEAMS self - 1]" by simp
  note pf = perm_facts[OF m]
  show "2 * length round = nat (NTEAMS self)" using pf(1) by (simp add: length_teams_of)
  show "\<forall>(host, guest)\<in>set round.
           0 \<le> host \<and> host < NTEAMS self \<and> 0 \<le> guest \<and> guest < NTEAMS self \<and> host \<noteq> guest"
  proof (clarify, intro conjI)
    fix host guest assume g: "(host, guest) \<in> set round"
    from teams_of_members[OF g] pf(3)
    show "0 \<le> host" "host < NTEAMS self" "0 \<le> guest" "guest < NTEAMS self" by auto
    from distinct_teams_of[OF pf(2) g] show "host \<noteq> guest" .
  qed
qed

lemma length_concat_const:
  "\<forall>xs\<in>set xss. length xs = k \<Longrightarrow> length (concat xss) = length xss * k"
  by (induction xss) simp_all

text \<open>
  Claim C9. For an even number of teams, at least two, and a tournament of \<open>2 * (N - 1)\<close>
  rounds that are all perfect matchings, \<open>countDoubleRoundRobinViolations\<close> returns an even
  number: each deviation \<open>|1 - c|\<close> has the parity of \<open>1 + c\<close>, the counts of the ordered
  pairs add up to the number of games played, \<open>N * (N - 1)\<close>, and the ordered pairs come in
  twos.
\<close>

theorem doubleRoundRobin_even:
  assumes "even (NTEAMS self)" and "2 \<le> NTEAMS self"
    and "length tournament = nat (2 * (NTEAMS self - 1))"
    and "\<forall>round\<in>set tournament. perfect_matching self round"
  shows "even (countDoubleRoundRobinViolations self tournament)"
proof -
  let ?c = "Counter (flatten tournament)"
  let ?n = "NTEAMS self"
  have valid: "\<forall>(host, guest)\<in>set (flatten tournament).
      0 \<le> host \<and> host < ?n \<and> 0 \<le> guest \<and> guest < ?n \<and> host \<noteq> guest"
    using assms(4) perfect_matching_facts(3) by (fastforce simp: flatten_def)
  have "\<forall>round\<in>set tournament. length round = nat (?n div 2)"
  proof
    fix round assume "round \<in> set tournament"
    with assms(4) have "2 * length round = nat ?n" by (simp add: perfect_matching_facts(2))
    then show "length round = nat (?n div 2)" using assms(2) by linarith
  qed
  from length_concat_const[OF this]
  have len: "length (flatten tournament) = length tournament * nat (?n div 2)"
    by (simp add: flatten_def)
  have "0 \<le> 2 * (?n - 1)" using assms(2) by simp
  then have "even (nat (2 * (?n - 1)))" by (simp only: even_nat_iff) simp
  then have "even (length tournament)" by (simp only: assms(3))
  then have evlen: "even (int (length (flatten tournament)))" by (simp add: len)
  have "even (countDoubleRoundRobinViolations self tournament) =
        even (\<Sum>host\<leftarrow>[0..?n - 1]. \<Sum>guest\<leftarrow>[host + 1..?n - 1].
                ?c (host, guest) + ?c (guest, host))"
    unfolding countDoubleRoundRobinViolations_sum
    by (intro even_sum_list_cong) simp
  also have "\<dots> = even (int (length (flatten tournament)))"
    by (simp only: counts_sum_length[OF valid])
  finally show ?thesis using evlen by simp
qed


theorem doubleRoundRobin_even_witness:
  "even (NTEAMS experiment4) \<and> 2 \<le> NTEAMS experiment4 \<and>
   length (fixture[1 := fixture ! 0]) = nat (2 * (NTEAMS experiment4 - 1)) \<and>
   list_all (perfect_matching experiment4) (fixture[1 := fixture ! 0]) \<and>
   countDoubleRoundRobinViolations experiment4 (fixture[1 := fixture ! 0]) = 4 \<and>
   even (4 :: int)"
proof -
  have e: "even (NTEAMS experiment4)" and n: "2 \<le> NTEAMS experiment4"
    by (simp_all add: experiment4_def)
  have l: "length (fixture[1 := fixture ! 0]) = nat (2 * (NTEAMS experiment4 - 1))"
    by (simp add: fixture_def experiment4_def)
  have p: "list_all (perfect_matching experiment4) (fixture[1 := fixture ! 0])"
    by code_simp
  then have p': "\<forall>round\<in>set (fixture[1 := fixture ! 0]). perfect_matching experiment4 round"
    by (simp only: list_all_iff)
  have c: "countDoubleRoundRobinViolations experiment4 (fixture[1 := fixture ! 0]) = 4"
    by code_simp
  from doubleRoundRobin_even[OF e n l p'] c have "even (4 :: int)" by simp
  with e n l p c show ?thesis by blast
qed

text \<open>The tournaments of \<open>randomTournament\<close> are of this shape.\<close>

lemma generated_rounds_perfect:
  assumes "even (NTEAMS self)" and "2 \<le> NTEAMS self" and "permuting shuffle"
  shows "\<exists>t g'. randomTournament shuffle self g = Inr (t, g') \<and>
           length t = nat (NROUNDS self) \<and> (\<forall>round\<in>set t. perfect_matching self round)"
proof -
  from randomTournament_loop_total[OF assms, of "nat (NROUNDS self)" g]
  obtain t g' where t: "randomTournament shuffle self g = Inr (t, g')"
    "length t = nat (NROUNDS self)"
    "\<forall>round\<in>set t. mset (teams_of round) = mset [0..NTEAMS self - 1]"
    unfolding randomTournament_def by blast
  have "perfect_matching self round" if "round \<in> set t" for round
    unfolding perfect_matching_def
    using t(3) that by (intro properties_for_sort) simp_all
  with t(1,2) show ?thesis by blast
qed

section \<open>Reduction into the aggregate\<close>

text \<open>Formatting an integer is injective, so distinct numbers give distinct keys.\<close>

lemma digit_val_digit_char: "d < 10 \<Longrightarrow> digit_val (digit_char d) = d"
proof -
  assume "d < 10"
  then consider "d = 0" | "d = 1" | "d = 2" | "d = 3" | "d = 4" | "d = 5" | "d = 6" | "d = 7"
    | "d = 8" | "d = 9" by atomize_elim arith
  then show ?thesis by cases (simp_all add: digit_char_def digit_val_def)
qed

lemma digit_char_not_minus: "d < 10 \<Longrightarrow> digit_char d \<noteq> CHR ''-''"
proof -
  assume "d < 10"
  then consider "d = 0" | "d = 1" | "d = 2" | "d = 3" | "d = 4" | "d = 5" | "d = 6" | "d = 7"
    | "d = 8" | "d = 9" by atomize_elim arith
  then show ?thesis by cases (simp_all add: digit_char_def)
qed

lemma parse_nat_snoc: "parse_nat (cs @ [c]) = 10 * parse_nat cs + digit_val c"
  by (simp add: parse_nat_def)

lemma parse_str_nat: "parse_nat (str_nat n) = n"
proof (induction n rule: str_nat.induct)
  case (1 n)
  show ?case
  proof (cases "n < 10")
    case True
    then show ?thesis by (subst str_nat.simps) (simp add: parse_nat_def digit_val_digit_char)
  next
    case False
    with 1 have "parse_nat (str_nat (n div 10)) = n div 10" by simp
    with False show ?thesis
      by (subst str_nat.simps) (simp add: parse_nat_snoc digit_val_digit_char)
  qed
qed

lemma str_nat_no_minus: "CHR ''-'' \<notin> set (str_nat n)"
proof (induction n rule: str_nat.induct)
  case (1 n)
  show ?case
  proof (cases "n < 10")
    case True
    then show ?thesis using digit_char_not_minus[of n] by (subst str_nat.simps) auto
  next
    case False
    with 1 have "CHR ''-'' \<notin> set (str_nat (n div 10))" by simp
    with False show ?thesis
      using digit_char_not_minus[of "n mod 10"] by (subst str_nat.simps) auto
  qed
qed

lemma str_nat_inj: "str_nat n = str_nat m \<Longrightarrow> n = m"
  by (metis parse_str_nat)

lemma str_int_inj: "str_int i = str_int j \<Longrightarrow> i = j"
proof -
  assume eq: "str_int i = str_int j"
  consider "i < 0" "j < 0" | "i < 0" "0 \<le> j" | "0 \<le> i" "j < 0" | "0 \<le> i" "0 \<le> j" by linarith
  then show ?thesis
  proof cases
    case 1
    with eq have "nat (- i) = nat (- j)" by (simp add: str_int_def str_nat_inj)
    with 1 show ?thesis by simp
  next
    case 2
    with eq have "CHR ''-'' # str_nat (nat (- i)) = str_nat (nat j)" by (simp add: str_int_def)
    then have "CHR ''-'' \<in> set (str_nat (nat j))" by (metis list.set_intros(1))
    then show ?thesis using str_nat_no_minus by blast
  next
    case 3
    with eq have "str_nat (nat i) = CHR ''-'' # str_nat (nat (- j))" by (simp add: str_int_def)
    then have "CHR ''-'' \<in> set (str_nat (nat i))" by (metis list.set_intros(1))
    then show ?thesis using str_nat_no_minus by blast
  next
    case 4
    with eq have "nat i = nat j" by (simp add: str_int_def str_nat_inj)
    with 4 show ?thesis by simp
  qed
qed

lemma all_results_step_commute:
  assumes "slot x \<noteq> slot y"
  shows "all_results_step (all_results_step a x) y = all_results_step (all_results_step a y) x"
proof (cases "MAXSTREAK x = MAXSTREAK y")
  case True
  with assms have "NTEAMS x \<noteq> NTEAMS y" by (simp add: slot_def)
  then have "''teams='' @ str_int (NTEAMS x) \<noteq> ''teams='' @ str_int (NTEAMS y)"
    using str_int_inj by auto
  then show ?thesis
    using True by (auto simp: all_results_step_def Let_def fun_upd_twist)
next
  case False
  then have "''maxStreak='' @ str_int (MAXSTREAK x) \<noteq> ''maxStreak='' @ str_int (MAXSTREAK y)"
    using str_int_inj by auto
  then show ?thesis
    by (auto simp: all_results_step_def Let_def fun_upd_twist)
qed

text \<open>
  Claim C7, amended. For a list of completed experiments no two of which have both the
  same threshold and the same number of teams, folding any rearrangement of the list into
  the aggregate gives the same aggregate.
\<close>

theorem all_results_order_independent:
  assumes "distinct (map slot experiments)" and "mset experiments' = mset experiments"
  shows "all_results experiments' = all_results experiments"
proof -
  have inj: "inj_on slot (set experiments)" using assms(1) by (simp add: distinct_map)
  have "fold (\<lambda>exp a. all_results_step a exp) experiments =
        fold (\<lambda>exp a. all_results_step a exp) experiments'"
  proof (rule fold_multiset_equiv)
    fix x y assume "x \<in> set experiments" "y \<in> set experiments"
    show "(\<lambda>a. all_results_step a x) \<circ> (\<lambda>a. all_results_step a y) =
          (\<lambda>a. all_results_step a y) \<circ> (\<lambda>a. all_results_step a x)"
    proof (cases "x = y")
      case True then show ?thesis by simp
    next
      case False
      with inj \<open>x \<in> set experiments\<close> \<open>y \<in> set experiments\<close> have "slot x \<noteq> slot y"
        by (auto dest: inj_onD)
      then show ?thesis by (auto simp: fun_eq_iff all_results_step_commute)
    qed
  next
    show "mset experiments = mset experiments'" using assms(2) by simp
  qed
  then show ?thesis by (simp add: all_results_def foldl_conv_fold)
qed

theorem all_results_order_independent_witness:
  "distinct (map slot [completed_twice, completed_negative]) \<and>
   mset [completed_negative, completed_twice] = mset [completed_twice, completed_negative] \<and>
   all_results [completed_negative, completed_twice] =
     all_results [completed_twice, completed_negative]"
proof -
  have d: "distinct (map slot [completed_twice, completed_negative])"
    by (simp add: slot_def completed_twice_def completed_negative_def experiment4_twice_def
        experiment4_def experiment2_negative_def)
  have m: "mset [completed_negative, completed_twice] =
           mset [completed_twice, completed_negative]"
    by (simp add: add_mset_commute)
  from all_results_order_independent[OF d m] d m show ?thesis by blast
qed

text \<open>
  Claim C7 as stated, for every list of completed experiments, fails: two completed
  experiments with the same threshold and the same number of teams are written to the same
  slot, and the one folded in last stays.
\<close>

theorem all_results_order_counterexample:
  "execute rotate_shuffle write_ok experiment4_twice 0 = Inr (completed_twice, 12) \<and>
   execute rotate_shuffle write_ok completed_none 0 = Inr (completed_none, 0) \<and>
   slot completed_twice = slot completed_none \<and>
   mset [completed_none, completed_twice] = mset [completed_twice, completed_none] \<and>
   all_results [completed_none, completed_twice] \<noteq>
     all_results [completed_twice, completed_none]"
proof -
  have x: "execute rotate_shuffle write_ok experiment4_twice 0 = Inr (completed_twice, 12)"
    by code_simp
  have y: "execute rotate_shuffle write_ok completed_none 0 = Inr (completed_none, 0)"
    by code_simp
  have s: "slot completed_twice = slot completed_none"
    by (simp add: slot_def completed_twice_def completed_none_def experiment4_twice_def)
  have m: "mset [completed_none, completed_twice] = mset [completed_twice, completed_none]"
    by (simp add: add_mset_commute)
  have a: "Option.bind (all_results [completed_none, completed_twice] ''maxStreak=3'')
             (\<lambda>d. d ''teams=4'') =
           Some [(''maxStreakViolations'', [(0, 2)]), (''noRepeatViolations'', [(0, 2)]),
                 (''doubleRoundRobinViolations'', [(16, 2)])]"
    by code_simp
  have b: "Option.bind (all_results [completed_twice, completed_none] ''maxStreak=3'')
             (\<lambda>d. d ''teams=4'') =
           Some [(''maxStreakViolations'', []), (''noRepeatViolations'', []),
                 (''doubleRoundRobinViolations'', [])]"
    by code_simp
  have n: "all_results [completed_none, completed_twice] \<noteq>
           all_results [completed_twice, completed_none]"
  proof
    assume "all_results [completed_none, completed_twice] =
            all_results [completed_twice, completed_none]"
    with a b show False by simp
  qed
  from x y s m n show ?thesis by blast
qed

text \<open>
  The experiments that \<open>main\<close> builds have pairwise distinct slots, and running an experiment
  does not change its slot: the list that \<open>main\<close> reduces meets the condition of the amended
  claim.
\<close>

lemma execute_loop_keeps_slot:
  "execute_loop shuffle n self g = Inr (self', g') \<Longrightarrow> slot self' = slot self"
proof (induction n arbitrary: self g)
  case 0
  then show ?case by simp
next
  case (Suc n)
  from Suc.prems obtain self1 g1 where
    "execute_loop shuffle n self1 g1 = Inr (self', g')" "slot self1 = slot self"
    by (auto simp: Let_def slot_def split: sum.splits prod.splits)
  with Suc.IH show ?case by metis
qed

lemma executeExperiment_keeps_slot:
  "executeExperiment seed shuffle write exp = Inr exp' \<Longrightarrow> slot exp' = slot exp"
  by (auto simp: executeExperiment_def execute_def split: sum.splits prod.splits option.splits
      dest: execute_loop_keeps_slot)

lemma init_slot:
  "4 \<le> nTeams \<Longrightarrow>
     map_sum id slot (Experiment_init repetitions nTeams maxStreak) = Inr (maxStreak, nTeams)"
  by (simp add: Experiment_init_def Let_def slot_def)

lemma main_experiments_slots:
  "map (map_sum id slot) main_experiments =
     map Inr (concat (map (\<lambda>nTeams. map (\<lambda>maxStreak. (maxStreak, nTeams)) [1..5])
                          (map (\<lambda>k. 4 + 2 * k) [0..23])))"
proof -
  have "map (\<lambda>k. map (\<lambda>maxStreak. map_sum id slot (Experiment_init 1000 (4 + 2 * k) maxStreak))
                     [1..5]) [0..23]
        = map (\<lambda>k. map (\<lambda>maxStreak. Inr (maxStreak, 4 + 2 * k)) [1..5]) [0..23]"
    by (rule map_cong[OF refl]) (simp add: init_slot)
  then have "concat (map (\<lambda>k. map (\<lambda>maxStreak.
                 map_sum id slot (Experiment_init 1000 (4 + 2 * k) maxStreak)) [1..5]) [0..23])
             = concat (map (\<lambda>k. map (\<lambda>maxStreak. Inr (maxStreak, 4 + 2 * k)) [1..5]) [0..23])"
    by (rule arg_cong)
  moreover have "map (map_sum id slot) main_experiments =
      concat (map (\<lambda>k. map (\<lambda>maxStreak.
                 map_sum id slot (Experiment_init 1000 (4 + 2 * k) maxStreak)) [1..5]) [0..23])"
    by (simp add: main_experiments_def map_concat comp_def)
  moreover have "map Inr (concat (map (\<lambda>nTeams. map (\<lambda>maxStreak. (maxStreak, nTeams)) [1..5])
                          (map (\<lambda>k. 4 + 2 * k) [0..23])))
      = (concat (map (\<lambda>k. map (\<lambda>maxStreak. Inr (maxStreak, 4 + 2 * k)) [1..5]) [0..23])
          :: (error + int \<times> int) list)"
    by (simp add: map_concat comp_def)
  ultimately show ?thesis by (simp only:)
qed

lemma main_slots_distinct:
  "distinct (concat (map (\<lambda>nTeams. map (\<lambda>maxStreak. (maxStreak, nTeams)) [1..5])
                         (map (\<lambda>k. 4 + 2 * k) [0..23 :: int])))"
  by code_simp

end
